theory Spec2Isabelle
  imports Main "HOL-Library.Sublist" "HOL-Library.Product_Lexorder" "HOL-Library.Multiset"
begin

section \<open>Python strings\<close>

text \<open>
  A Python \<open>str\<close> is modelled as a \<open>string\<close> whose characters are the code points
  U+0000 .. U+00FF. The character classes below are the ones CPython uses on that range:
  \<open>str.isspace\<close> (also used by \<open>str.strip\<close>, \<open>str.split\<close> and the pattern \<open>\s\<close>),
  the pattern \<open>\d\<close> (decimal digits), \<open>str.isdigit\<close> (decimal digits and the superscripts
  U+00B2, U+00B3, U+00B9), and the pattern \<open>\w\<close> (alphanumerics and the underscore).
\<close>

definition isspace :: "char \<Rightarrow> bool" where
  "isspace c = (let n = (of_char c :: nat) in
     (9 \<le> n \<and> n \<le> 13) \<or> (28 \<le> n \<and> n \<le> 32) \<or> n = 133 \<or> n = 160)"

definition isdecimal :: "char \<Rightarrow> bool" where
  "isdecimal c = (let n = (of_char c :: nat) in 48 \<le> n \<and> n \<le> 57)"

definition isdigit :: "char \<Rightarrow> bool" where
  "isdigit c = (let n = (of_char c :: nat) in
     (48 \<le> n \<and> n \<le> 57) \<or> n = 178 \<or> n = 179 \<or> n = 185)"

definition isword :: "char \<Rightarrow> bool" where
  "isword c = (let n = (of_char c :: nat) in
     (48 \<le> n \<and> n \<le> 57) \<or> (65 \<le> n \<and> n \<le> 90) \<or> n = 95 \<or> (97 \<le> n \<and> n \<le> 122) \<or>
     n = 170 \<or> n = 178 \<or> n = 179 \<or> n = 181 \<or> n = 185 \<or> n = 186 \<or>
     (188 \<le> n \<and> n \<le> 190) \<or> (192 \<le> n \<and> n \<le> 214) \<or> (216 \<le> n \<and> n \<le> 246) \<or>
     (248 \<le> n \<and> n \<le> 255))"

text \<open>\<open>s.strip()\<close>: leading and trailing whitespace removed.\<close>

definition str_strip :: "string \<Rightarrow> string" where
  "str_strip s = rev (dropWhile isspace (rev (dropWhile isspace s)))"

text \<open>A string with no whitespace at either end: what \<open>strip\<close> leaves.\<close>

definition trimmed :: "string \<Rightarrow> bool" where
  "trimmed s = (s = [] \<or> (\<not> isspace (hd s) \<and> \<not> isspace (last s)))"

text \<open>
  \<open>s.split(maxsplit=1)\<close>: leading whitespace is skipped; an exhausted string gives \<open>[]\<close>;
  otherwise the first token runs up to the next whitespace, the whitespace run after it is
  skipped, and what is left (if anything) is the second part, taken to the end of the string.
\<close>

definition str_split1 :: "string \<Rightarrow> string list" where
  "str_split1 s =
     (let s1 = dropWhile isspace s in
      if s1 = [] then []
      else let tok = takeWhile (\<lambda>c. \<not> isspace c) s1;
               rest = dropWhile isspace (dropWhile (\<lambda>c. \<not> isspace c) s1)
           in if rest = [] then [tok] else [tok, rest])"

text \<open>
  The two parts of a string around its first whitespace run: the characters before it, and
  what follows it.
\<close>

definition first_token :: "string \<Rightarrow> string" where
  "first_token s = takeWhile (\<lambda>c. \<not> isspace c) s"

definition after_first_token :: "string \<Rightarrow> string" where
  "after_first_token s = dropWhile isspace (dropWhile (\<lambda>c. \<not> isspace c) s)"

text \<open>\<open>s.split(sep)\<close> for a one-character separator: always at least one part.\<close>

fun str_split :: "char \<Rightarrow> string \<Rightarrow> string list" where
  "str_split sep [] = [[]]"
| "str_split sep (c # cs) =
     (if c = sep then [] # str_split sep cs
      else (case str_split sep cs of
              [] \<Rightarrow> [[c]]
            | p # ps \<Rightarrow> (c # p) # ps))"

text \<open>\<open>sep.join(parts)\<close>.\<close>

fun str_join :: "string \<Rightarrow> string list \<Rightarrow> string" where
  "str_join sep [] = []"
| "str_join sep [p] = p"
| "str_join sep (p # q # ps) = p @ sep @ str_join sep (q # ps)"

text \<open>\<open>sub in s\<close>: \<open>sub\<close> occurs in \<open>s\<close> as a contiguous substring.\<close>

fun str_in :: "string \<Rightarrow> string \<Rightarrow> bool" where
  "str_in sub [] = (sub = [])"
| "str_in sub (c # cs) = (prefix sub (c # cs) \<or> str_in sub cs)"

text \<open>\<open>s.isdigit()\<close>: non-empty and every character a digit.\<close>

definition str_isdigit :: "string \<Rightarrow> bool" where
  "str_isdigit s = (s \<noteq> [] \<and> list_all isdigit s)"

section \<open>Regular expressions\<close>

text \<open>
  The four compiled patterns use literals, optional literals, greedy bounded repetition of
  a character class, and (optional) capture groups around such pieces. The matcher is the
  backtracking one of \<open>re\<close>, written as a list of successes: every way to match is produced,
  in the order in which the backtracking search tries them, so the head of the list is the
  match that \<open>pattern.match\<close> returns.
\<close>

datatype charclass = Digit | Space | Word | Dot

fun in_class :: "charclass \<Rightarrow> char \<Rightarrow> bool" where
  "in_class Digit c = isdecimal c"
| "in_class Space c = isspace c"
| "in_class Word c = isword c"
| "in_class Dot c = (c \<noteq> CHR 0x0A)"

datatype atom =
    Lit char
  | OptLit char
  | Rep charclass nat "nat option"

datatype item =
    Atom atom
  | Group nat "atom list"
  | OptGroup nat "atom list"

type_synonym groups = "nat \<Rightarrow> string option"

text \<open>The remainders of the subject after one atom, greedy choices first.\<close>

fun match_atom :: "atom \<Rightarrow> string \<Rightarrow> string list" where
  "match_atom (Lit c) s = (case s of [] \<Rightarrow> [] | x # xs \<Rightarrow> if x = c then [xs] else [])"
| "match_atom (OptLit c) s = (case s of [] \<Rightarrow> [] | x # xs \<Rightarrow> if x = c then [xs] else []) @ [s]"
| "match_atom (Rep cl lo hi) s =
     (let run = length (takeWhile (in_class cl) s);
          top = (case hi of None \<Rightarrow> run | Some h \<Rightarrow> min h run)
      in map (\<lambda>k. drop k s) (rev [lo ..< Suc top]))"

fun match_atoms :: "atom list \<Rightarrow> string \<Rightarrow> string list" where
  "match_atoms [] s = [s]"
| "match_atoms (a # as) s = concat (map (match_atoms as) (match_atom a s))"

definition captured :: "string \<Rightarrow> string \<Rightarrow> string" where
  "captured s s' = take (length s - length s') s"

fun match_items :: "item list \<Rightarrow> string \<Rightarrow> groups \<Rightarrow> (groups \<times> string) list" where
  "match_items [] s gs = [(gs, s)]"
| "match_items (Atom a # r) s gs = concat (map (\<lambda>s'. match_items r s' gs) (match_atom a s))"
| "match_items (Group g as # r) s gs =
     concat (map (\<lambda>s'. match_items r s' (gs(g \<mapsto> captured s s'))) (match_atoms as s))"
| "match_items (OptGroup g as # r) s gs =
     concat (map (\<lambda>s'. match_items r s' (gs(g \<mapsto> captured s s'))) (match_atoms as s))
     @ match_items r s gs"

text \<open>\<open>pattern.match(s)\<close>: the groups of the first match at the start of \<open>s\<close>, or \<open>None\<close>.\<close>

definition re_match :: "item list \<Rightarrow> string \<Rightarrow> groups option" where
  "re_match p s = (case match_items p s Map.empty of [] \<Rightarrow> None | (gs, _) # _ \<Rightarrow> Some gs)"

definition re_matches :: "item list \<Rightarrow> string \<Rightarrow> bool" where
  "re_matches p s = (re_match p s \<noteq> None)"

text \<open>\<open>^\d{3}\s+.*\<close>\<close>

definition level1_pattern :: "item list" where
  "level1_pattern = [Atom (Rep Digit 3 (Some 3)), Atom (Rep Space 1 None), Atom (Rep Dot 0 None)]"

text \<open>\<open>^\d{3}\.\d+\s+.*\<close>\<close>

definition level2_pattern :: "item list" where
  "level2_pattern = [Atom (Rep Digit 3 (Some 3)), Atom (Lit CHR ''.''), Atom (Rep Digit 1 None),
     Atom (Rep Space 1 None), Atom (Rep Dot 0 None)]"

text \<open>\<open>^\d{4}\s+.*\<close>\<close>

definition level3_pattern :: "item list" where
  "level3_pattern = [Atom (Rep Digit 4 (Some 4)), Atom (Rep Space 1 None), Atom (Rep Dot 0 None)]"

text \<open>\<open>^(CADT\w+)?\s*-\s*(\d{8,})?\s*_?\s*X\s*_?\s*(.*)\<close>\<close>

definition data_pattern :: "item list" where
  "data_pattern =
    [OptGroup 1 [Lit CHR ''C'', Lit CHR ''A'', Lit CHR ''D'', Lit CHR ''T'', Rep Word 1 None],
     Atom (Rep Space 0 None), Atom (Lit CHR ''-''), Atom (Rep Space 0 None),
     OptGroup 2 [Rep Digit 8 None],
     Atom (Rep Space 0 None), Atom (OptLit CHR ''_''), Atom (Rep Space 0 None),
     Atom (Lit CHR ''X''),
     Atom (Rep Space 0 None), Atom (OptLit CHR ''_''), Atom (Rep Space 0 None),
     Group 3 [Rep Dot 0 None]]"

section \<open>The parser: \<open>parse_text_to_dataframe\<close>\<close>

text \<open>One row of the table, with the columns of the data frame.\<close>

record row =
  Level_1 :: string
  Level_2 :: string
  Level_3_Code :: string
  Level_3 :: string
  ID :: string
  Numeric_Code :: string
  Description :: string

text \<open>The local variables of the loop: the hierarchy context and the rows collected so far.\<close>

record pstate =
  current_level_1 :: string
  current_level_2 :: string
  current_level_3_code :: string
  current_level_3_desc :: string
  data :: "row list"

definition init_state :: pstate where
  "init_state = \<lparr>current_level_1 = [], current_level_2 = [], current_level_3_code = [],
     current_level_3_desc = [], data = []\<rparr>"

text \<open>
  The clean-up and the heuristic applied to \<open>match.groups()\<close> of a data row (the body of
  \<open>if match:\<close> up to the append): an unmatched group is \<open>None\<close> and becomes the empty
  string; the description is stripped; a description of at least two parts whose first part
  passes \<open>isdigit\<close> and has eight or more characters gives up that part as the numeric code.
\<close>

text \<open>\<open>match.groups()\<close> for a pattern with three groups.\<close>

definition groups3 :: "groups \<Rightarrow> string option \<times> string option \<times> string option" where
  "groups3 m = (m 1, m 2, m 3)"

definition or_empty :: "string option \<Rightarrow> string" where
  "or_empty g = (case g of None \<Rightarrow> [] | Some s \<Rightarrow> s)"

definition decode_row :: "string option \<times> string option \<times> string option
    \<Rightarrow> string \<times> string \<times> string" where
  "decode_row gs =
     (case gs of (g1, g2, g3) \<Rightarrow>
        let id_code = or_empty g1;
            numeric_code = or_empty g2;
            description = str_strip (or_empty g3)
        in if id_code \<noteq> [] \<and> numeric_code = [] then
             (let desc_parts = str_split1 description
              in if length desc_parts > 1 \<and> str_isdigit (desc_parts ! 0) \<and> length (desc_parts ! 0) \<ge> 8
                 then (id_code, desc_parts ! 0, desc_parts ! 1)
                 else (id_code, numeric_code, description))
           else (id_code, numeric_code, description))"

definition skip_line :: "string \<Rightarrow> bool" where
  "skip_line line = (line = [] \<or> str_in ''PAGE'' line
     \<or> str_in ''Deloitte India Management Reporting'' line)"

definition is_level1 :: "string \<Rightarrow> bool" where
  "is_level1 line = (re_matches level1_pattern line \<and> \<not> re_matches level2_pattern line
     \<and> \<not> re_matches level3_pattern line)"

text \<open>\<open>line.split(maxsplit=1)[1] if len(line.split(maxsplit=1)) > 1 else line\<close>\<close>

definition after_code :: "string \<Rightarrow> string" where
  "after_code line = (if length (str_split1 line) > 1 then str_split1 line ! 1 else line)"

text \<open>
  The body of \<open>for line in lines\<close>. Two reads of the source could raise and are written
  here as plain reads: \<open>parts[0]\<close> in the Level-3 branch, where the line is not empty and
  has no whitespace at its ends, so that the split has a first part (lemma
  \<open>level3_parts_nonempty\<close>), and \<open>description.strip()\<close> on the third group, which is
  not optional and is set by every match (lemma \<open>data_match_group3\<close>).
\<close>

definition process_line :: "pstate \<Rightarrow> string \<Rightarrow> pstate" where
  "process_line st raw =
     (let line = str_strip raw in
      if skip_line line then st
      else if is_level1 line then
        st\<lparr>current_level_1 := after_code line, current_level_2 := [],
           current_level_3_code := [], current_level_3_desc := []\<rparr>
      else if re_matches level2_pattern line then
        st\<lparr>current_level_2 := after_code line,
           current_level_3_code := [], current_level_3_desc := []\<rparr>
      else if re_matches level3_pattern line then
        (let parts = str_split1 line in
         st\<lparr>current_level_3_code := parts ! 0,
            current_level_3_desc := (if length parts > 1 then parts ! 1 else [])\<rparr>)
      else
        (case re_match data_pattern line of
           None \<Rightarrow> st
         | Some m \<Rightarrow>
             (case decode_row (groups3 m) of (id_code, numeric_code, description) \<Rightarrow>
                if id_code \<noteq> [] \<or> numeric_code \<noteq> [] then
                  st\<lparr>data := data st @
                    [\<lparr>Level_1 = current_level_1 st, Level_2 = current_level_2 st,
                      Level_3_Code = current_level_3_code st, Level_3 = current_level_3_desc st,
                      ID = id_code, Numeric_Code = numeric_code, Description = description\<rparr>]\<rparr>
                else st)))"

text \<open>The column names given to the data frame.\<close>

definition columns :: "string list" where
  "columns = [''Level 1'', ''Level 2'', ''Level 3 Code'', ''Level 3'', ''ID'', ''Numeric_Code'',
     ''Description'']"

definition parse_text_to_dataframe :: "string \<Rightarrow> row list" where
  "parse_text_to_dataframe text = data (foldl process_line init_state (str_split (CHR 0x0A) text))"

section \<open>Text extraction: \<open>extract_text_from_pdf\<close>\<close>

text \<open>
  A block of \<open>page.get_text("blocks")\<close> is the tuple
  \<open>(x0, y0, x1, y1, text, block_no, block_type)\<close>; the code reads \<open>b[0]\<close>, \<open>b[1]\<close> and \<open>b[4]\<close>.
  The coordinates are only compared, so they are taken from any linear order.
\<close>

record 'c block =
  bx0 :: 'c
  by0 :: 'c
  bx1 :: 'c
  by1 :: 'c
  btext :: string
  bno :: nat
  btype :: nat

text \<open>
  What a path holds: nothing (\<open>os.path.exists\<close> is false), a file on which some call inside
  the \<open>try\<close> raises an exception with the given message, or a document with its pages,
  each page the list of blocks in the order \<open>get_text\<close> returns them.
\<close>

datatype 'c pdf = NotFound | Unreadable string | Document "'c block list list"

text \<open>
  A spreadsheet as it lies at a path: rows of cells. \<open>to_excel(index=False)\<close> of a data
  frame writes the header row of the column names and then one row per record.
\<close>

type_synonym sheet = "string list list"

definition cells :: "row \<Rightarrow> string list" where
  "cells r = [Level_1 r, Level_2 r, Level_3_Code r, Level_3 r, ID r, Numeric_Code r, Description r]"

definition sheet_of :: "row list \<Rightarrow> sheet" where
  "sheet_of dataframe = columns # map cells dataframe"

text \<open>
  What a call of \<open>DataFrame.to_excel\<close> does, which is the library's and the file system's
  matter and not the program's: it returns, and the sheet of the data frame is at the path;
  or it raises an exception with a message, and then the path is either untouched or holds
  whatever sheet the writer saved before the exception left it (the cells written so far).
\<close>

datatype save_outcome = Saved | Raised string "sheet option"

text \<open>
  The outside world of a conversion: the files by path, the outcome of \<open>to_excel\<close> for a
  data frame and an output path, the spreadsheets at their paths and the lines printed so
  far.
\<close>

record 'c world =
  files :: "string \<Rightarrow> 'c pdf"
  to_excel :: "row list \<Rightarrow> string \<Rightarrow> save_outcome"
  written :: "string \<Rightarrow> sheet option"
  printed :: "string list"

definition print :: "string \<Rightarrow> 'c world \<Rightarrow> 'c world" where
  "print msg w = w\<lparr>printed := printed w @ [msg]\<rparr>"

text \<open>\<open>blocks.sort(key=lambda b: (b[1], b[0]))\<close>: a stable sort, top then left.\<close>

definition sort_blocks :: "('c::linorder) block list \<Rightarrow> 'c block list" where
  "sort_blocks blocks = sort_key (\<lambda>b. (by0 b, bx0 b)) blocks"

text \<open>The two nested loops that fill \<open>full_text\<close>.\<close>

fun append_pages :: "('c::linorder) block list list \<Rightarrow> string list \<Rightarrow> string list" where
  "append_pages [] full_text = full_text"
| "append_pages (blocks # pages) full_text =
     append_pages pages
       (foldl (\<lambda>acc b. acc @ [str_strip (btext b)]) full_text (sort_blocks blocks))"

definition extract_text_from_pdf :: "string \<Rightarrow> ('c::linorder) world \<Rightarrow> string option \<times> 'c world" where
  "extract_text_from_pdf pdf_path w =
     (case files w pdf_path of
        NotFound \<Rightarrow>
          (None, print (''Error: The file '' @ [CHR 0x27] @ pdf_path @ [CHR 0x27] @ '' was not found.'') w)
      | Unreadable e \<Rightarrow> (None, print (''An error occurred while reading the PDF: '' @ e) w)
      | Document pages \<Rightarrow> (Some (str_join [CHR 0x0A] (append_pages pages [])), w))"

section \<open>Saving and the entry point: \<open>save_to_excel\<close>, \<open>convert_pdf_to_excel\<close>\<close>

definition success_message :: "string \<Rightarrow> string" where
  "success_message excel_path =
     ''Successfully converted PDF to Excel file: '' @ [CHR 0x27] @ excel_path @ [CHR 0x27]"

text \<open>
  \<open>save_to_excel\<close> catches every exception of \<open>to_excel\<close>, prints it and returns; what the
  failed call left at the path stays there.
\<close>

definition save_to_excel :: "row list \<Rightarrow> string \<Rightarrow> 'c world \<Rightarrow> 'c world" where
  "save_to_excel dataframe excel_path w =
     (case to_excel w dataframe excel_path of
        Saved \<Rightarrow> print (success_message excel_path)
                  (w\<lparr>written := (written w)(excel_path \<mapsto> sheet_of dataframe)\<rparr>)
      | Raised e left \<Rightarrow>
          print (''An error occurred while saving to Excel: '' @ e)
            (case left of
               None \<Rightarrow> w
             | Some partial \<Rightarrow> w\<lparr>written := (written w)(excel_path \<mapsto> partial)\<rparr>))"

text \<open>
  The entry point returns \<open>(success, message)\<close>. \<open>not raw_text\<close> holds for \<open>None\<close> and for
  the empty string. Both callees catch their own exceptions and the parser raises none, so
  no exception reaches the handler around the body; the exception of a failed save in
  particular ends inside \<open>save_to_excel\<close>.
\<close>

definition convert_pdf_to_excel :: "string \<Rightarrow> string \<Rightarrow> ('c::linorder) world
    \<Rightarrow> (bool \<times> string) \<times> 'c world" where
  "convert_pdf_to_excel pdf_path excel_path w =
     (case extract_text_from_pdf pdf_path w of (raw_text, w1) \<Rightarrow>
        (case raw_text of
           None \<Rightarrow> ((False, ''Failed to extract text from the PDF.''), w1)
         | Some t \<Rightarrow>
             if t = [] then ((False, ''Failed to extract text from the PDF.''), w1)
             else
               (let data_df = parse_text_to_dataframe t in
                if data_df = [] then
                  ((False, ''Could not parse any structured data from the PDF.''), w1)
                else
                  ((True, success_message excel_path), save_to_excel data_df excel_path w1))))"

section \<open>Example inputs\<close>

definition scenario_text :: string where
  "scenario_text = ''001 Net Revenue'' @ [CHR 0x0A] @ ''001.1 Service Revenue'' @ [CHR 0x0A]
     @ ''4010 Gross Service Revenue'' @ [CHR 0x0A] @ ''CADTX123 - 40102345 _X_ Fee income''"

definition scenario_row :: row where
  "scenario_row = \<lparr>Level_1 = ''Net Revenue'', Level_2 = ''Service Revenue'',
     Level_3_Code = ''4010'', Level_3 = ''Gross Service Revenue'',
     ID = ''CADTX123'', Numeric_Code = ''40102345'', Description = ''Fee income''\<rparr>"

definition busy_state :: pstate where
  "busy_state = \<lparr>current_level_1 = ''Old One'', current_level_2 = ''Old Two'',
     current_level_3_code = ''9999'', current_level_3_desc = ''Old Three'', data = [scenario_row]\<rparr>"



definition superscript_line :: string where
  "superscript_line = ''CADTX1 - _X_ '' @ replicate 8 (CHR 0xB2) @ '' Fee income''"

definition text_block :: "int \<Rightarrow> int \<Rightarrow> string \<Rightarrow> int block" where
  "text_block y x s = \<lparr>bx0 = x, by0 = y, bx1 = x + 100, by1 = y + 10,
     btext = s, bno = 0, btype = 0\<rparr>"

definition example_doc :: "int block list list" where
  "example_doc =
     [[text_block 30 0 (''CADTX123 - 40102345 _X_ Fee income '' @ [CHR 0x0A]),
       text_block 10 50 ''   '',
       text_block 20 0 (''001.1 Service Revenue'' @ [CHR 0x0A] @ ''4010 Gross Service Revenue''),
       text_block 10 0 ''  001 Net Revenue''],
      [text_block 5 0 ''PAGE 1'']]"

definition control_doc :: "int block list list" where
  "control_doc = [[text_block 0 0 (''CADTX1 - 40102345 X Fee'' @ [CHR 0x01] @ ''income'')]]"

text \<open>
  A world for the examples. Its \<open>to_excel\<close> raises on the path \<open>locked.xlsx\<close> before it
  writes anything, and raises on a table with the control character U+0001 in a
  description after it has saved the header and the six columns before the description.
\<close>

definition example_world :: "int world" where
  "example_world = \<lparr>
     files = (\<lambda>p. if p = ''in.pdf'' then Document example_doc
                  else if p = ''notes.pdf'' then Document [[text_block 0 0 ''hello world'']]
                  else if p = ''control.pdf'' then Document control_doc
                  else if p = ''bad.pdf'' then Unreadable ''cannot open''
                  else NotFound),
     to_excel = (\<lambda>dataframe p.
        if p = ''locked.xlsx'' then Raised ''Permission denied'' None
        else if list_ex (\<lambda>r. CHR 0x01 \<in> set (Description r)) dataframe
        then Raised ''IllegalCharacterError''
               (Some (columns # map (\<lambda>r. take 6 (cells r)) dataframe))
        else Saved),
     written = Map.empty,
     printed = []\<rparr>"

definition blank_doc :: "int block list list" where
  "blank_doc = [[text_block 0 0 ''Net'', text_block 10 0 ''   '', text_block 20 0 ''Revenue'']]"

section \<open>Facts about the string functions\<close>

lemma dropWhile_rev_prefix: "\<exists>v. t = rev (dropWhile P (rev t)) @ v"
proof -
  have "rev (takeWhile P (rev t) @ dropWhile P (rev t)) = t"
    by (simp only: takeWhile_dropWhile_id rev_rev_ident)
  then have "t = rev (dropWhile P (rev t)) @ rev (takeWhile P (rev t))"
    by (simp only: rev_append)
  then show ?thesis by blast
qed

lemma trimmed_strip: "trimmed (str_strip s)"
proof -
  define t where "t = dropWhile isspace s"
  define u where "u = rev (dropWhile isspace (rev t))"
  have su: "str_strip s = u" by (simp add: str_strip_def t_def u_def)
  show ?thesis
  proof (cases "u = []")
    case True
    with su show ?thesis by (simp add: trimmed_def)
  next
    case False
    obtain v where tv: "t = u @ v" using dropWhile_rev_prefix[of t isspace] u_def by blast
    with False have "t \<noteq> []" by simp
    then have "\<not> isspace (hd t)" unfolding t_def by (rule hd_dropWhile)
    with tv False have h: "\<not> isspace (hd u)" by simp
    have "dropWhile isspace (rev t) \<noteq> []" using False u_def by simp
    then have "\<not> isspace (hd (dropWhile isspace (rev t)))" by (rule hd_dropWhile)
    then have "\<not> isspace (hd (rev u))" by (simp add: u_def)
    with False have "\<not> isspace (last u)" by (simp add: hd_rev)
    with h su show ?thesis by (simp add: trimmed_def)
  qed
qed

lemma strip_trimmed: "trimmed s \<Longrightarrow> str_strip s = s"
proof (cases "s = []")
  case True
  then show ?thesis by (simp add: str_strip_def)
next
  case False
  assume "trimmed s"
  with False have h: "\<not> isspace (hd s)" and l: "\<not> isspace (last s)" by (simp_all add: trimmed_def)
  from h False have 1: "dropWhile isspace s = s" by (simp add: dropWhile_eq_self_iff)
  from l False have "\<not> isspace (hd (rev s))" by (simp add: hd_rev)
  then have "dropWhile isspace (rev s) = rev s" by (simp add: dropWhile_eq_self_iff)
  with 1 show ?thesis by (simp add: str_strip_def)
qed

lemma strip_strip: "str_strip (str_strip s) = str_strip s"
  by (rule strip_trimmed) (rule trimmed_strip)

lemma str_in_iff: "str_in sub s \<longleftrightarrow> (\<exists>p q. s = p @ sub @ q)"
proof (induction s)
  case Nil
  then show ?case by auto
next
  case (Cons c cs)
  show ?case
  proof
    assume "str_in sub (c # cs)"
    then consider "prefix sub (c # cs)" | "str_in sub cs" by auto
    then show "\<exists>p q. c # cs = p @ sub @ q"
    proof cases
      case 1
      then obtain q where "c # cs = sub @ q" by (auto simp: prefix_def)
      then have "c # cs = [] @ sub @ q" by simp
      then show ?thesis by blast
    next
      case 2
      with Cons.IH obtain p q where "cs = p @ sub @ q" by blast
      then have "c # cs = (c # p) @ sub @ q" by simp
      then show ?thesis by blast
    qed
  next
    assume "\<exists>p q. c # cs = p @ sub @ q"
    then obtain p q where pq: "c # cs = p @ sub @ q" by blast
    show "str_in sub (c # cs)"
    proof (cases p)
      case Nil
      with pq have "prefix sub (c # cs)" by (simp add: prefix_def)
      then show ?thesis by simp
    next
      case (Cons a p')
      with pq have "cs = p' @ sub @ q" by simp
      with Cons.IH have "str_in sub cs" by blast
      then show ?thesis by simp
    qed
  qed
qed

lemma dropWhile_keeps_infix:
  assumes "m \<noteq> []" "\<not> P (hd m)"
  shows "\<exists>p'. dropWhile P (p @ m @ q) = p' @ m @ q"
proof (induction p)
  case Nil
  from assms obtain a m' where "m = a # m'" "\<not> P a" by (cases m) auto
  then have "dropWhile P ([] @ m @ q) = [] @ m @ q" by simp
  then show ?case by blast
next
  case (Cons a p)
  show ?case
  proof (cases "P a")
    case True
    with Cons.IH show ?thesis by simp
  next
    case False
    then have "dropWhile P ((a # p) @ m @ q) = (a # p) @ m @ q" by simp
    then show ?thesis by blast
  qed
qed

lemma str_in_strip:
  assumes "str_in m s" "m \<noteq> []" "\<not> isspace (hd m)" "\<not> isspace (last m)"
  shows "str_in m (str_strip s)"
proof -
  from assms(1) obtain p q where "s = p @ m @ q" by (auto simp: str_in_iff)
  with dropWhile_keeps_infix[of m isspace p q, OF assms(2,3)] obtain p' where
    1: "dropWhile isspace s = p' @ m @ q" by auto
  have "rev m \<noteq> []" "\<not> isspace (hd (rev m))" using assms by (simp_all add: hd_rev)
  from dropWhile_keeps_infix[of "rev m" isspace "rev q" "rev p'", OF this] obtain q' where
    "dropWhile isspace (rev q @ rev m @ rev p') = q' @ rev m @ rev p'" by blast
  with 1 have "str_strip s = p' @ m @ rev q'" by (simp add: str_strip_def)
  then show ?thesis unfolding str_in_iff by blast
qed

lemma skip_line_marker:
  "str_in ''PAGE'' raw \<or> str_in ''Deloitte India Management Reporting'' raw
   \<Longrightarrow> skip_line (str_strip raw)"
  unfolding skip_line_def
  by (auto intro!: str_in_strip simp: isspace_def)

section \<open>The parser\<close>

lemma process_line_ids:
  assumes "\<forall>r \<in> set (data st). ID r \<noteq> [] \<or> Numeric_Code r \<noteq> []"
  shows "\<forall>r \<in> set (data (process_line st raw)). ID r \<noteq> [] \<or> Numeric_Code r \<noteq> []"
  using assms by (auto simp: process_line_def Let_def split: option.splits prod.splits)

lemma foldl_process_line_ids:
  "\<forall>r \<in> set (data st). ID r \<noteq> [] \<or> Numeric_Code r \<noteq> [] \<Longrightarrow>
   \<forall>r \<in> set (data (foldl process_line st ls)). ID r \<noteq> [] \<or> Numeric_Code r \<noteq> []"
proof (induction ls arbitrary: st)
  case Nil
  then show ?case by simp
next
  case (Cons l ls)
  from Cons.IH[OF process_line_ids[OF Cons.prems, of l]] show ?case by simp
qed

text \<open>
  Claim C2. Every row that the parser appends to the table has a non-empty \<open>ID\<close> or a
  non-empty \<open>Numeric_Code\<close>, for every input text.
\<close>

theorem emitted_has_id_or_code:
  "r \<in> set (parse_text_to_dataframe text) \<Longrightarrow> ID r \<noteq> [] \<or> Numeric_Code r \<noteq> []"
  using foldl_process_line_ids[of init_state "str_split (CHR 0x0A) text"]
  by (auto simp: parse_text_to_dataframe_def init_state_def)

theorem emitted_has_id_or_code_witness:
  "scenario_row \<in> set (parse_text_to_dataframe scenario_text)
   \<and> \<not> (ID scenario_row = [] \<and> Numeric_Code scenario_row = [])"
proof -
  have "parse_text_to_dataframe scenario_text = [scenario_row]" by code_simp
  then have h: "scenario_row \<in> set (parse_text_to_dataframe scenario_text)" by simp
  from h emitted_has_id_or_code[OF h] show ?thesis by simp
qed

text \<open>
  Claim C5. Starting from the empty context, the three header lines of the scenario emit
  nothing, and the fourth line emits exactly the row of Scenario D; the same holds for the
  parser run on the four lines joined by newlines.
\<close>

theorem scenario_d:
  "data (foldl process_line init_state
       [''001 Net Revenue'', ''001.1 Service Revenue'', ''4010 Gross Service Revenue'']) = []
   \<and> data (foldl process_line init_state
       [''001 Net Revenue'', ''001.1 Service Revenue'', ''4010 Gross Service Revenue'',
        ''CADTX123 - 40102345 _X_ Fee income'']) =
     [\<lparr>Level_1 = ''Net Revenue'', Level_2 = ''Service Revenue'',
       Level_3_Code = ''4010'', Level_3 = ''Gross Service Revenue'',
       ID = ''CADTX123'', Numeric_Code = ''40102345'', Description = ''Fee income''\<rparr>]
   \<and> parse_text_to_dataframe scenario_text =
     [\<lparr>Level_1 = ''Net Revenue'', Level_2 = ''Service Revenue'',
       Level_3_Code = ''4010'', Level_3 = ''Gross Service Revenue'',
       ID = ''CADTX123'', Numeric_Code = ''40102345'', Description = ''Fee income''\<rparr>]"
  by code_simp

text \<open>
  Claim C10. A line that contains \<open>PAGE\<close> or \<open>Deloitte India Management Reporting\<close>
  anywhere leaves the whole loop state as it was: no field of the context changes and no
  row is appended, whatever else the line matches. The two markers are constants of the
  loop body; the parser takes no list of markers.
\<close>

theorem marker_lines_skipped:
  "str_in ''PAGE'' raw \<or> str_in ''Deloitte India Management Reporting'' raw
   \<Longrightarrow> process_line st raw = st"
  using skip_line_marker[of raw] by (simp add: process_line_def)

theorem marker_lines_skipped_witness:
  "str_in ''PAGE'' ''001 PAGE 3 of 9''
   \<and> re_matches level1_pattern (str_strip ''001 PAGE 3 of 9'')
   \<and> process_line busy_state ''001 PAGE 3 of 9'' = busy_state
   \<and> str_in ''Deloitte India Management Reporting''
        ''CADT1 - 12345678 X Deloitte India Management Reporting''
   \<and> re_matches data_pattern (str_strip ''CADT1 - 12345678 X Deloitte India Management Reporting'')
   \<and> process_line busy_state ''CADT1 - 12345678 X Deloitte India Management Reporting'' = busy_state"
proof -
  have a: "str_in ''PAGE'' ''001 PAGE 3 of 9''" by code_simp
  have a': "re_matches level1_pattern (str_strip ''001 PAGE 3 of 9'')" by code_simp
  have b: "str_in ''Deloitte India Management Reporting''
        ''CADT1 - 12345678 X Deloitte India Management Reporting''" by code_simp
  have b': "re_matches data_pattern (str_strip ''CADT1 - 12345678 X Deloitte India Management Reporting'')"
    by code_simp
  from a a' b b' marker_lines_skipped[of "''001 PAGE 3 of 9''" busy_state]
    marker_lines_skipped[of "''CADT1 - 12345678 X Deloitte India Management Reporting''" busy_state]
  show ?thesis by simp
qed

section \<open>Facts about the matcher\<close>

lemma match_items_group_inv:
  assumes "(gs', s') \<in> set (match_items items s gs)"
    and "P (gs g)"
    and "\<And>as t t'. Group g as \<in> set items \<or> OptGroup g as \<in> set items
           \<Longrightarrow> t' \<in> set (match_atoms as t) \<Longrightarrow> P (Some (captured t t'))"
  shows "P (gs' g)"
  using assms
proof (induction items s gs rule: match_items.induct)
  case (1 s gs)
  then show ?case by simp
next
  case (2 a r s gs)
  from "2.prems"(1) obtain s'' where m: "s'' \<in> set (match_atom a s)"
    "(gs', s') \<in> set (match_items r s'' gs)" by auto
  have p3: "P (Some (captured t t'))"
    if "Group g bs \<in> set r \<or> OptGroup g bs \<in> set r" "t' \<in> set (match_atoms bs t)" for bs t t'
    using that "2.prems"(3)[of bs t' t] by auto
  from "2.IH"[OF m(1) m(2) "2.prems"(2)] p3 show ?case by blast
next
  case (3 g' as r s gs)
  from "3.prems"(1) obtain s'' where m: "s'' \<in> set (match_atoms as s)"
    "(gs', s') \<in> set (match_items r s'' (gs(g' \<mapsto> captured s s'')))" by auto
  have upd: "P ((gs(g' \<mapsto> captured s s'')) g)"
    using "3.prems"(2) "3.prems"(3)[of as s'' s] m(1) by (cases "g = g'") auto
  have p3: "P (Some (captured t t'))"
    if "Group g bs \<in> set r \<or> OptGroup g bs \<in> set r" "t' \<in> set (match_atoms bs t)" for bs t t'
    using that "3.prems"(3)[of bs t' t] by auto
  from "3.IH"[OF m(1) m(2) upd] p3 show ?case by blast
next
  case (4 g' as r s gs)
  have p3: "P (Some (captured t t'))"
    if "Group g bs \<in> set r \<or> OptGroup g bs \<in> set r" "t' \<in> set (match_atoms bs t)" for bs t t'
    using that "4.prems"(3)[of bs t' t] by auto
  from "4.prems"(1) consider
    (taken) s'' where "s'' \<in> set (match_atoms as s)"
      "(gs', s') \<in> set (match_items r s'' (gs(g' \<mapsto> captured s s'')))"
    | (skipped) "(gs', s') \<in> set (match_items r s gs)" by auto
  then show ?case
  proof cases
    case taken
    have upd: "P ((gs(g' \<mapsto> captured s s'')) g)"
      using "4.prems"(2) "4.prems"(3)[of as s'' s] taken(1) by (cases "g = g'") auto
    from "4.IH"(1)[OF taken(1) taken(2) upd] p3 show ?thesis by blast
  next
    case skipped
    from "4.IH"(2)[OF skipped "4.prems"(2)] p3 show ?thesis by blast
  qed
qed

lemma match_items_group_set:
  assumes "Group g as \<in> set items" "(gs', s') \<in> set (match_items items s gs)"
  shows "gs' g \<noteq> None"
  using assms
proof (induction items s gs rule: match_items.induct)
  case (1 s gs)
  then show ?case by simp
next
  case (2 a r s gs)
  from "2.prems"(2) obtain s'' where m: "s'' \<in> set (match_atom a s)"
    "(gs', s') \<in> set (match_items r s'' gs)" by auto
  from "2.prems"(1) have "Group g as \<in> set r" by simp
  from "2.IH"[OF m(1) this m(2)] show ?case .
next
  case (3 g' bs r s gs)
  from "3.prems"(2) obtain s'' where m: "s'' \<in> set (match_atoms bs s)"
    "(gs', s') \<in> set (match_items r s'' (gs(g' \<mapsto> captured s s'')))" by auto
  show ?case
  proof (cases "Group g as \<in> set r")
    case True
    from "3.IH"[OF m(1) True m(2)] show ?thesis .
  next
    case False
    with "3.prems"(1) have "g' = g" by simp
    then have "(gs(g' \<mapsto> captured s s'')) g \<noteq> None" by simp
    from match_items_group_inv[OF m(2), of "\<lambda>v. v \<noteq> None" g, OF this] show ?thesis by simp
  qed
next
  case (4 g' bs r s gs)
  from "4.prems"(1) have in_r: "Group g as \<in> set r" by simp
  from "4.prems"(2) consider
    (taken) s'' where "s'' \<in> set (match_atoms bs s)"
      "(gs', s') \<in> set (match_items r s'' (gs(g' \<mapsto> captured s s'')))"
    | (skipped) "(gs', s') \<in> set (match_items r s gs)" by auto
  then show ?case
  proof cases
    case taken
    from "4.IH"(1)[OF taken(1) in_r taken(2)] show ?thesis .
  next
    case skipped
    from "4.IH"(2)[OF in_r skipped] show ?thesis .
  qed
qed

lemma rep_digits_captured:
  assumes "t' \<in> set (match_atoms [Rep Digit 8 None] t)"
  shows "list_all isdecimal (captured t t') \<and> 8 \<le> length (captured t t')"
proof -
  define run where "run = length (takeWhile (in_class Digit) t)"
  from assms obtain k where k: "8 \<le> k" "k \<le> run" "t' = drop k t"
    by (auto simp: run_def Let_def simp del: upt_Suc)
  have rl: "run \<le> length t" unfolding run_def by (rule length_takeWhile_le)
  with k have c: "captured t t' = take k t" by (simp add: captured_def)
  have "take k t = take k (takeWhile (in_class Digit) t @ dropWhile (in_class Digit) t)" by simp
  also have "\<dots> = take k (takeWhile (in_class Digit) t)"
    using k(2) by (simp add: run_def del: takeWhile_dropWhile_id)
  finally have "set (take k t) \<subseteq> set (takeWhile (in_class Digit) t)"
    by (simp add: set_take_subset)
  then have "\<forall>c \<in> set (take k t). in_class Digit c" by (blast dest: set_takeWhileD)
  then have "\<forall>c \<in> set (take k t). isdecimal c" by simp
  moreover have "length (take k t) = k" using k(2) rl by simp
  ultimately show ?thesis using c k(1) by (simp add: list_all_iff)
qed

lemma re_match_in_set:
  "re_match p s = Some m \<Longrightarrow> \<exists>r. (m, r) \<in> set (match_items p s Map.empty)"
  by (auto simp: re_match_def split: list.splits)

lemma data_match_group2:
  assumes "re_match data_pattern line = Some m"
  shows "m 2 = None \<or> (\<exists>w. m 2 = Some w \<and> list_all isdecimal w \<and> 8 \<le> length w)"
proof -
  from re_match_in_set[OF assms] obtain r where
    r: "(m, r) \<in> set (match_items data_pattern line Map.empty)" by blast
  show ?thesis
  proof (rule match_items_group_inv[OF r, of "\<lambda>v. v = None \<or> (\<exists>w. v = Some w \<and> list_all isdecimal w \<and> 8 \<le> length w)" 2])
    show "Map.empty 2 = None \<or> (\<exists>w. Map.empty 2 = Some w \<and> list_all isdecimal w \<and> 8 \<le> length w)" by simp
  next
    fix as t t'
    assume "Group 2 as \<in> set data_pattern \<or> OptGroup 2 as \<in> set data_pattern"
    then have "as = [Rep Digit 8 None]" by (simp add: data_pattern_def)
    moreover assume "t' \<in> set (match_atoms as t)"
    ultimately show "Some (captured t t') = None \<or>
      (\<exists>w. Some (captured t t') = Some w \<and> list_all isdecimal w \<and> 8 \<le> length w)"
      using rep_digits_captured[of t' t] by simp
  qed
qed

lemma data_match_group3:
  assumes "re_match data_pattern line = Some m"
  shows "m 3 \<noteq> None"
proof -
  from re_match_in_set[OF assms] obtain r where
    r: "(m, r) \<in> set (match_items data_pattern line Map.empty)" by blast
  have "Group 3 [Rep Dot 0 None] \<in> set data_pattern" by (simp add: data_pattern_def)
  from match_items_group_set[OF this r] show ?thesis .
qed



section \<open>The data row decoder\<close>

lemma split1_trimmed:
  assumes "trimmed d"
  shows "str_split1 d =
    (if d = [] then []
     else if dropWhile isspace (dropWhile (\<lambda>c. \<not> isspace c) d) = []
          then [takeWhile (\<lambda>c. \<not> isspace c) d]
          else [takeWhile (\<lambda>c. \<not> isspace c) d,
                dropWhile isspace (dropWhile (\<lambda>c. \<not> isspace c) d)])"
proof -
  from assms have "dropWhile isspace d = d"
    by (auto simp: trimmed_def dropWhile_eq_self_iff)
  then show ?thesis by (simp add: str_split1_def Let_def)
qed

lemma last_dropWhile: "dropWhile P xs \<noteq> [] \<Longrightarrow> last (dropWhile P xs) = last xs"
proof (induction xs)
  case Nil
  then show ?case by simp
next
  case (Cons a xs)
  show ?case
  proof (cases "P a")
    case True
    with Cons.prems have ne: "dropWhile P xs \<noteq> []" by simp
    then have "xs \<noteq> []" by auto
    with True Cons.IH[OF ne] show ?thesis by simp
  next
    case False
    then show ?thesis by simp
  qed
qed



lemma split1_parts:
  assumes "trimmed s"
  shows "str_split1 s = (if s = [] then [] else if after_first_token s = [] then [first_token s]
     else [first_token s, after_first_token s])"
  using split1_trimmed[OF assms] by (simp only: first_token_def after_first_token_def)







section \<open>Header lines\<close>

lemma rep_nonempty:
  "match_atom (Rep cl lo hi) s \<noteq> [] \<Longrightarrow> lo \<le> length (takeWhile (in_class cl) s)"
  by (auto simp: Let_def split: option.splits simp del: upt_Suc)

lemma match_items_atom_nonempty:
  "match_items (Atom a # r) s gs \<noteq> [] \<Longrightarrow> match_atom a s \<noteq> []"
  by auto

lemma takeWhile_3:
  assumes "3 \<le> length (takeWhile P s)"
  shows "\<exists>a b c t. s = a # b # c # t \<and> P a \<and> P b \<and> P c"
proof -
  from assms obtain a s1 where 1: "s = a # s1" "P a" "2 \<le> length (takeWhile P s1)"
    by (cases s) (auto split: if_splits)
  then obtain b s2 where 2: "s1 = b # s2" "P b" "1 \<le> length (takeWhile P s2)"
    by (cases s1) (auto split: if_splits)
  then obtain c t where 3: "s2 = c # t" "P c"
    by (cases s2) (auto split: if_splits)
  from 1 2 3 show ?thesis by blast
qed

lemma level1_shape:
  assumes "re_matches level1_pattern line"
  shows "\<exists>a b c w t. line = a # b # c # w # t \<and> isdecimal a \<and> isdecimal b \<and> isdecimal c \<and> isspace w"
proof -
  from assms have ne: "match_items level1_pattern line Map.empty \<noteq> []"
    by (auto simp: re_matches_def re_match_def split: list.splits)
  then have "match_atom (Rep Digit 3 (Some 3)) line \<noteq> []"
    unfolding level1_pattern_def by (rule match_items_atom_nonempty)
  from rep_nonempty[OF this] takeWhile_3[of "in_class Digit" line]
  obtain a b c t where l: "line = a # b # c # t" "isdecimal a" "isdecimal b" "isdecimal c"
    by auto
  then have "match_atom (Rep Digit 3 (Some 3)) line = [t]" by (simp add: Let_def)
  with ne have "match_items [Atom (Rep Space 1 None), Atom (Rep Dot 0 None)] t Map.empty \<noteq> []"
    by (simp add: level1_pattern_def)
  then have "match_atom (Rep Space 1 None) t \<noteq> []" by (rule match_items_atom_nonempty)
  from rep_nonempty[OF this] obtain w t' where "t = w # t'" "isspace w"
    by (cases t) (auto split: if_splits)
  with l show ?thesis by blast
qed

lemma isdecimal_not_space: "isdecimal c \<Longrightarrow> \<not> isspace c"
  by (auto simp: isdecimal_def isspace_def Let_def)

lemma level1_header_text:
  assumes "trimmed line" "re_matches level1_pattern line"
  shows "after_code line = dropWhile isspace (drop 3 line) \<and> after_code line \<noteq> []"
proof -
  from level1_shape[OF assms(2)] obtain a b c w t where
    l: "line = a # b # c # w # t" "isdecimal a" "isdecimal b" "isdecimal c" "isspace w" by blast
  then have ns: "\<not> isspace a" "\<not> isspace b" "\<not> isspace c" by (simp_all add: isdecimal_not_space)
  have aft: "after_first_token line = dropWhile isspace (drop 3 line)"
    using l(1,5) ns by (simp add: after_first_token_def)
  have "dropWhile isspace (w # t) \<noteq> []"
  proof
    assume "dropWhile isspace (w # t) = []"
    then have "\<forall>x \<in> set (w # t). isspace x" by (simp only: dropWhile_eq_Nil_conv)
    then have "isspace (last (w # t))" using last_in_set[of "w # t"] by blast
    with l(1) have "isspace (last line)" by simp
    with assms(1) l(1) show False by (simp add: trimmed_def)
  qed
  with l(1) aft have ne: "after_first_token line \<noteq> []" by simp
  from l(1) have "line \<noteq> []" by simp
  with split1_parts[OF assms(1)] ne
  have "str_split1 line = [first_token line, after_first_token line]" by simp
  then have "after_code line = after_first_token line" by (simp add: after_code_def)
  with aft ne show ?thesis by simp
qed


lemma match_items_atom_step:
  "match_items (Atom a # r) s gs \<noteq> [] \<Longrightarrow> \<exists>s' \<in> set (match_atom a s). match_items r s' gs \<noteq> []"
  by auto

lemma match_atom_suffix: "s' \<in> set (match_atom a s) \<Longrightarrow> set s' \<subseteq> set s"
  by (cases a) (auto simp: Let_def split: list.splits if_splits dest: in_set_dropD simp del: upt_Suc)

lemma rep_space_head:
  assumes "match_atom (Rep Space 1 None) s \<noteq> []"
  shows "\<exists>w \<in> set s. isspace w"
proof -
  from rep_nonempty[OF assms] obtain w t where "s = w # t" "isspace w"
    by (cases s) (auto split: if_splits)
  then show ?thesis by auto
qed

lemma level2_has_space:
  assumes "re_matches level2_pattern line"
  shows "\<exists>w \<in> set line. isspace w"
proof -
  from assms have "match_items level2_pattern line Map.empty \<noteq> []"
    by (auto simp: re_matches_def re_match_def split: list.splits)
  then obtain s1 where 1: "s1 \<in> set (match_atom (Rep Digit 3 (Some 3)) line)"
    "match_items [Atom (Lit CHR ''.''), Atom (Rep Digit 1 None), Atom (Rep Space 1 None),
        Atom (Rep Dot 0 None)] s1 Map.empty \<noteq> []"
    unfolding level2_pattern_def by (blast dest: match_items_atom_step)
  then obtain s2 where 2: "s2 \<in> set (match_atom (Lit CHR ''.'') s1)"
    "match_items [Atom (Rep Digit 1 None), Atom (Rep Space 1 None),
        Atom (Rep Dot 0 None)] s2 Map.empty \<noteq> []"
    by (blast dest: match_items_atom_step)
  then obtain s3 where 3: "s3 \<in> set (match_atom (Rep Digit 1 None) s2)"
    "match_items [Atom (Rep Space 1 None), Atom (Rep Dot 0 None)] s3 Map.empty \<noteq> []"
    by (blast dest: match_items_atom_step)
  from 3(2) have "match_atom (Rep Space 1 None) s3 \<noteq> []" by (rule match_items_atom_nonempty)
  from rep_space_head[OF this] obtain w where w: "w \<in> set s3" "isspace w" by blast
  from w(1) match_atom_suffix[OF 3(1)] match_atom_suffix[OF 2(1)] match_atom_suffix[OF 1(1)]
  have "w \<in> set line" by blast
  with w(2) show ?thesis by blast
qed

lemma level1_has_space:
  assumes "re_matches level1_pattern line"
  shows "\<exists>w \<in> set line. isspace w"
  using level1_shape[OF assms] by auto

lemma after_code_header:
  assumes "trimmed line" "\<exists>w \<in> set line. isspace w"
  shows "after_code line = after_first_token line \<and> after_first_token line \<noteq> []"
proof -
  define u where "u = dropWhile (\<lambda>c. \<not> isspace c) line"
  from assms(2) have lne: "line \<noteq> []" by auto
  have une: "u \<noteq> []"
  proof
    assume "u = []"
    then have "\<forall>x \<in> set line. \<not> isspace x" unfolding u_def by (simp only: dropWhile_eq_Nil_conv)
    with assms(2) show False by blast
  qed
  then have "last u = last line" unfolding u_def by (rule last_dropWhile)
  moreover from assms(1) lne have "\<not> isspace (last line)" by (simp add: trimmed_def)
  ultimately have lu: "\<not> isspace (last u)" by simp
  have ne: "after_first_token line \<noteq> []"
  proof
    assume "after_first_token line = []"
    then have "dropWhile isspace u = []" by (simp only: after_first_token_def u_def)
    then have "\<forall>x \<in> set u. isspace x" by (simp only: dropWhile_eq_Nil_conv)
    with une have "isspace (last u)" using last_in_set[of u] by blast
    with lu show False ..
  qed
  with split1_parts[OF assms(1)] lne
  have "str_split1 line = [first_token line, after_first_token line]" by simp
  then have "after_code line = after_first_token line" by (simp add: after_code_def)
  with ne show ?thesis by simp
qed

lemma level3_parts_nonempty:
  "\<not> skip_line (str_strip raw) \<Longrightarrow> str_split1 (str_strip raw) \<noteq> []"
  using split1_parts[OF trimmed_strip, of raw] by (simp add: skip_line_def)

text \<open>
  Claim C3. On a line that takes the Level-1 branch the loop sets \<open>current_level_1\<close> to the
  text after the three-digit code and the whitespace that follows it, and resets the three
  lower fields to the empty string; on a line that takes the Level-2 branch it sets
  \<open>current_level_2\<close> to the text after the first whitespace run, resets the two Level-3
  fields and leaves \<open>current_level_1\<close> as it was. Neither branch appends a row.
\<close>

theorem header_transitions:
  "\<not> skip_line (str_strip raw) \<Longrightarrow>
   (is_level1 (str_strip raw) \<longrightarrow>
      current_level_1 (process_line st raw) = after_first_token (str_strip raw)
      \<and> after_first_token (str_strip raw) = dropWhile isspace (drop 3 (str_strip raw))
      \<and> current_level_2 (process_line st raw) = []
      \<and> current_level_3_code (process_line st raw) = []
      \<and> current_level_3_desc (process_line st raw) = []
      \<and> data (process_line st raw) = data st)
   \<and> (\<not> is_level1 (str_strip raw) \<and> re_matches level2_pattern (str_strip raw) \<longrightarrow>
      current_level_2 (process_line st raw) = after_first_token (str_strip raw)
      \<and> current_level_3_code (process_line st raw) = []
      \<and> current_level_3_desc (process_line st raw) = []
      \<and> current_level_1 (process_line st raw) = current_level_1 st
      \<and> data (process_line st raw) = data st)"
proof -
  assume ns: "\<not> skip_line (str_strip raw)"
  have t: "trimmed (str_strip raw)" by (rule trimmed_strip)
  have 1: "after_code (str_strip raw) = after_first_token (str_strip raw)
      \<and> after_first_token (str_strip raw) = dropWhile isspace (drop 3 (str_strip raw))"
    if "is_level1 (str_strip raw)"
  proof -
    from that have m: "re_matches level1_pattern (str_strip raw)" by (simp add: is_level1_def)
    from after_code_header[OF t level1_has_space[OF m]] level1_header_text[OF t m]
    show ?thesis by simp
  qed
  have 2: "after_code (str_strip raw) = after_first_token (str_strip raw)"
    if "re_matches level2_pattern (str_strip raw)"
    using after_code_header[OF t level2_has_space[OF that]] by simp
  from ns 1 2 show ?thesis by (auto simp: process_line_def)
qed

theorem header_transitions_witness:
  "current_level_1 (process_line busy_state ''001 Net Revenue'') = ''Net Revenue''
   \<and> current_level_2 (process_line busy_state ''001 Net Revenue'') = []
   \<and> current_level_3_code (process_line busy_state ''001 Net Revenue'') = []
   \<and> current_level_3_desc (process_line busy_state ''001 Net Revenue'') = []
   \<and> data (process_line busy_state ''001 Net Revenue'') = [scenario_row]
   \<and> current_level_2 (process_line busy_state ''001.1 Service Revenue'') = ''Service Revenue''
   \<and> current_level_3_code (process_line busy_state ''001.1 Service Revenue'') = []
   \<and> current_level_3_desc (process_line busy_state ''001.1 Service Revenue'') = []
   \<and> current_level_1 (process_line busy_state ''001.1 Service Revenue'') = ''Old One''
   \<and> data (process_line busy_state ''001.1 Service Revenue'') = [scenario_row]"
proof -
  have a1: "\<not> skip_line (str_strip ''001 Net Revenue'')" by code_simp
  have a2: "is_level1 (str_strip ''001 Net Revenue'')" by code_simp
  have a3: "after_first_token (str_strip ''001 Net Revenue'') = ''Net Revenue''" by code_simp
  have b1: "\<not> skip_line (str_strip ''001.1 Service Revenue'')" by code_simp
  have b2: "\<not> is_level1 (str_strip ''001.1 Service Revenue'')" by code_simp
  have b3: "re_matches level2_pattern (str_strip ''001.1 Service Revenue'')" by code_simp
  have b4: "after_first_token (str_strip ''001.1 Service Revenue'') = ''Service Revenue''"
    by code_simp
  have c: "current_level_1 busy_state = ''Old One''" "data busy_state = [scenario_row]"
    by (simp_all add: busy_state_def)
  from header_transitions[OF a1, of busy_state] header_transitions[OF b1, of busy_state]
    a2 a3 b2 b3 b4 c
  show ?thesis by simp
qed

section \<open>Numeric codes\<close>

lemma isdecimal_isdigit: "isdecimal c \<Longrightarrow> isdigit c"
  by (simp add: isdecimal_def isdigit_def Let_def)

lemma decode_row_numeric:
  assumes "g2 = None \<or> (\<exists>w. g2 = Some w \<and> list_all isdecimal w \<and> 8 \<le> length w)"
    and "decode_row (g1, g2, g3) = (i, n, d)"
  shows "n = [] \<or> (list_all isdigit n \<and> 8 \<le> length n)"
  using assms
  by (auto simp: decode_row_def or_empty_def Let_def str_isdigit_def list_all_iff
      dest: isdecimal_isdigit split: if_splits)

lemma process_line_numeric:
  assumes "\<forall>r \<in> set (data st). Numeric_Code r = [] \<or> (list_all isdigit (Numeric_Code r) \<and> 8 \<le> length (Numeric_Code r))"
  shows "\<forall>r \<in> set (data (process_line st raw)). Numeric_Code r = [] \<or> (list_all isdigit (Numeric_Code r) \<and> 8 \<le> length (Numeric_Code r))"
proof -
  have "n = [] \<or> (list_all isdigit n \<and> 8 \<le> length n)"
    if "re_match data_pattern (str_strip raw) = Some m" "decode_row (groups3 m) = (i, n, d)"
    for m i n d
    using decode_row_numeric[OF data_match_group2[OF that(1)], of "m 1" "m 3" i n d] that(2)
    by (simp add: groups3_def)
  with assms show ?thesis
    by (auto simp: process_line_def Let_def split: option.splits prod.splits)
qed

lemma numeric_code_isdigit:
  "r \<in> set (parse_text_to_dataframe text) \<Longrightarrow>
   Numeric_Code r = [] \<or> (list_all isdigit (Numeric_Code r) \<and> 8 \<le> length (Numeric_Code r))"
proof -
  have "\<forall>r \<in> set (data (foldl process_line st ls)).
      Numeric_Code r = [] \<or> (list_all isdigit (Numeric_Code r) \<and> 8 \<le> length (Numeric_Code r))"
    if "\<forall>r \<in> set (data st).
      Numeric_Code r = [] \<or> (list_all isdigit (Numeric_Code r) \<and> 8 \<le> length (Numeric_Code r))"
    for st ls
    using that
  proof (induction ls arbitrary: st)
    case Nil
    then show ?case by simp
  next
    case (Cons l ls)
    from Cons.IH[OF process_line_numeric[OF Cons.prems, of l]] show ?case by simp
  qed
  from this[of init_state "str_split (CHR 0x0A) text"]
  show "r \<in> set (parse_text_to_dataframe text) \<Longrightarrow>
   Numeric_Code r = [] \<or> (list_all isdigit (Numeric_Code r) \<and> 8 \<le> length (Numeric_Code r))"
    by (auto simp: parse_text_to_dataframe_def init_state_def)
qed

text \<open>
  Claim C4 at a line whose description starts with eight superscript twos (U+00B2): the
  pattern \<open>\d{8,}\<close> does not take them, \<open>isdigit\<close> accepts them, and the row is emitted
  with a numeric code that holds no decimal digit. The lemmas above give what does hold for
  every text: a numeric code from the pattern is eight or more decimal digits, and any
  non-empty numeric code has eight or more characters that pass \<open>isdigit\<close>.
\<close>

theorem superscript_code_promoted:
  "parse_text_to_dataframe superscript_line =
     [\<lparr>Level_1 = [], Level_2 = [], Level_3_Code = [], Level_3 = [],
       ID = ''CADTX1'',
       Numeric_Code = [CHR 0xB2, CHR 0xB2, CHR 0xB2, CHR 0xB2, CHR 0xB2, CHR 0xB2, CHR 0xB2, CHR 0xB2],
       Description = ''Fee income''\<rparr>]
   \<and> \<not> isdecimal (CHR 0xB2)"
  unfolding superscript_line_def by code_simp

section \<open>Text extraction\<close>

lemma foldl_append_strip:
  "foldl (\<lambda>acc b. acc @ [str_strip (btext b)]) full_text bs
   = full_text @ map (\<lambda>b. str_strip (btext b)) bs"
  by (induction bs arbitrary: full_text) simp_all

lemma append_pages_concat:
  "append_pages pages full_text
   = full_text @ concat (map (\<lambda>blocks. map (\<lambda>b. str_strip (btext b)) (sort_blocks blocks)) pages)"
  by (induction pages arbitrary: full_text) (simp_all add: foldl_append_strip)

lemma append_pages_append:
  "append_pages (ps @ qs) [] = append_pages ps [] @ append_pages qs []"
  by (simp add: append_pages_concat)

lemma append_pages_trimmed: "list_all trimmed (append_pages pages [])"
  by (simp add: append_pages_concat list_all_iff trimmed_strip)

lemma length_append_pages: "length (append_pages pages []) = sum_list (map length pages)"
  by (simp add: append_pages_concat length_concat sort_blocks_def comp_def)

lemma sort_blocks_sorted:
  "sorted (map (\<lambda>b. (by0 b, bx0 b)) (sort_blocks blocks))"
  unfolding sort_blocks_def by (rule sorted_sort_key)

lemma sort_blocks_mset: "mset (sort_blocks blocks) = mset blocks"
  unfolding sort_blocks_def by simp

lemma sort_blocks_stable:
  "filter (\<lambda>b. (by0 b, bx0 b) = k) (sort_blocks blocks) = filter (\<lambda>b. (by0 b, bx0 b) = k) blocks"
  unfolding sort_blocks_def by (rule sort_key_stable)

lemma append_pages_nil:
  "append_pages pages []
   = concat (map (\<lambda>blocks. map (\<lambda>b. str_strip (btext b)) (sort_blocks blocks)) pages)"
  by (simp add: append_pages_concat)

text \<open>
  Claim C6, as amended. For a readable document the extractor returns the newline-joined
  list of fragments, and that list holds the stripped text of every block, one entry per
  block and empty entries included: pages follow each other in document order, and within
  a page the blocks are a permutation of what the page gave, ascending by top and then left
  coordinate, blocks at the same position keeping their order. Every fragment is trimmed.
\<close>

theorem extractor_fragments:
  "files w pdf_path = Document pages \<Longrightarrow>
   extract_text_from_pdf pdf_path w = (Some (str_join [CHR 0x0A] (append_pages pages [])), w)
   \<and> append_pages pages []
       = concat (map (\<lambda>blocks. map (\<lambda>b. str_strip (btext b)) (sort_blocks blocks)) pages)
   \<and> list_all trimmed (append_pages pages [])
   \<and> length (append_pages pages []) = sum_list (map length pages)
   \<and> list_all (\<lambda>blocks. sorted (map (\<lambda>b. (by0 b, bx0 b)) (sort_blocks blocks))
                 \<and> mset (sort_blocks blocks) = mset blocks
                 \<and> (\<forall>k. filter (\<lambda>b. (by0 b, bx0 b) = k) (sort_blocks blocks)
                           = filter (\<lambda>b. (by0 b, bx0 b) = k) blocks)) pages"
proof -
  assume "files w pdf_path = Document pages"
  then have 1: "extract_text_from_pdf pdf_path w
      = (Some (str_join [CHR 0x0A] (append_pages pages [])), w)"
    by (simp add: extract_text_from_pdf_def)
  have 5: "list_all (\<lambda>blocks. sorted (map (\<lambda>b. (by0 b, bx0 b)) (sort_blocks blocks))
                 \<and> mset (sort_blocks blocks) = mset blocks
                 \<and> (\<forall>k. filter (\<lambda>b. (by0 b, bx0 b) = k) (sort_blocks blocks)
                           = filter (\<lambda>b. (by0 b, bx0 b) = k) blocks)) pages"
    by (simp add: list_all_iff sort_blocks_sorted sort_blocks_mset sort_blocks_stable)
  from 1 append_pages_nil append_pages_trimmed length_append_pages 5
  show ?thesis by (intro conjI)
qed

theorem extractor_fragments_witness:
  "extract_text_from_pdf ''in.pdf'' example_world =
     (Some (''001 Net Revenue'' @ [CHR 0x0A] @ [CHR 0x0A] @ ''001.1 Service Revenue'' @ [CHR 0x0A]
        @ ''4010 Gross Service Revenue'' @ [CHR 0x0A] @ ''CADTX123 - 40102345 _X_ Fee income''
        @ [CHR 0x0A] @ ''PAGE 1''), example_world)
   \<and> length (append_pages example_doc []) = 5"
proof -
  have f: "files example_world ''in.pdf'' = Document example_doc"
    by (simp add: example_world_def)
  have e: "str_join [CHR 0x0A] (append_pages example_doc []) =
      ''001 Net Revenue'' @ [CHR 0x0A] @ [CHR 0x0A] @ ''001.1 Service Revenue'' @ [CHR 0x0A]
        @ ''4010 Gross Service Revenue'' @ [CHR 0x0A] @ ''CADTX123 - 40102345 _X_ Fee income''
        @ [CHR 0x0A] @ ''PAGE 1''" by code_simp
  have l: "sum_list (map length example_doc) = 5" by (simp add: example_doc_def)
  from extractor_fragments[OF f]
  have a: "extract_text_from_pdf ''in.pdf'' example_world
      = (Some (str_join [CHR 0x0A] (append_pages example_doc [])), example_world)"
    and b: "length (append_pages example_doc []) = sum_list (map length example_doc)"
    by blast+
  from a b show ?thesis by (simp only: e l)
qed

text \<open>
  Claim C6 as stated fails on a page with a block of whitespace only: its fragment is the
  empty string, and it is appended like any other, so that the text has an empty line.
\<close>

theorem blank_fragment_kept:
  "append_pages blank_doc [] = [''Net'', [], ''Revenue'']
   \<and> [] \<in> set (append_pages blank_doc [])
   \<and> str_join [CHR 0x0A] (append_pages blank_doc []) = ''Net'' @ [CHR 0x0A, CHR 0x0A] @ ''Revenue''"
  by code_simp

section \<open>The entry point\<close>

lemma extract_some:
  "fst (extract_text_from_pdf p w) = Some t \<Longrightarrow> extract_text_from_pdf p w = (Some t, w)"
  by (auto simp: extract_text_from_pdf_def split: pdf.splits)

lemma extract_written: "written (snd (extract_text_from_pdf p w)) = written w"
  by (simp add: extract_text_from_pdf_def print_def split: pdf.splits)

lemma extract_frame:
  "files (snd (extract_text_from_pdf p w)) = files w"
  "to_excel (snd (extract_text_from_pdf p w)) = to_excel w"
  by (simp_all add: extract_text_from_pdf_def print_def split: pdf.splits)

lemma extract_reads_files:
  "files w' = files w \<Longrightarrow> fst (extract_text_from_pdf p w') = fst (extract_text_from_pdf p w)"
  by (simp add: extract_text_from_pdf_def split: pdf.splits)

lemma save_frame:
  "files (save_to_excel df e w) = files w"
  "to_excel (save_to_excel df e w) = to_excel w"
  by (simp_all add: save_to_excel_def print_def split: save_outcome.splits option.splits)

lemma save_twice:
  "written (save_to_excel df e (save_to_excel df e w)) = written (save_to_excel df e w)"
  by (simp add: save_to_excel_def print_def split: save_outcome.splits option.splits)

lemma convert_success:
  assumes "fst (extract_text_from_pdf p w) = Some t" "t \<noteq> []" "parse_text_to_dataframe t \<noteq> []"
  shows "convert_pdf_to_excel p e w
    = ((True, success_message e), save_to_excel (parse_text_to_dataframe t) e w)"
  using extract_some[OF assms(1)] assms(2,3)
  by (simp add: convert_pdf_to_excel_def Let_def)

lemma convert_no_text:
  assumes "fst (extract_text_from_pdf p w) = None \<or> fst (extract_text_from_pdf p w) = Some []"
  shows "convert_pdf_to_excel p e w
    = ((False, ''Failed to extract text from the PDF.''), snd (extract_text_from_pdf p w))"
  using assms
  by (cases "extract_text_from_pdf p w") (auto simp: convert_pdf_to_excel_def)

lemma convert_no_rows:
  assumes "fst (extract_text_from_pdf p w) = Some t" "t \<noteq> []" "parse_text_to_dataframe t = []"
  shows "convert_pdf_to_excel p e w
    = ((False, ''Could not parse any structured data from the PDF.''), w)"
  using extract_some[OF assms(1)] assms(2,3)
  by (simp add: convert_pdf_to_excel_def Let_def)

lemma convert_frame:
  "files (snd (convert_pdf_to_excel p e w)) = files w"
  "to_excel (snd (convert_pdf_to_excel p e w)) = to_excel w"
proof -
  obtain r w1 where x: "extract_text_from_pdf p w = (r, w1)"
    by (cases "extract_text_from_pdf p w")
  with extract_frame[of p w] have "files w1 = files w" "to_excel w1 = to_excel w"
    by simp_all
  with x show "files (snd (convert_pdf_to_excel p e w)) = files w"
    "to_excel (snd (convert_pdf_to_excel p e w)) = to_excel w"
    by (simp_all add: convert_pdf_to_excel_def Let_def save_frame split: option.splits)
qed

text \<open>
  What holds of the entry point for every input: success is returned exactly when a
  non-empty text was extracted and the parsed table is non-empty; a failure leaves the
  spreadsheets as they were and carries one of two different messages; on success the sheet
  of the whole table is at the output path when \<open>to_excel\<close> returned, and only then.
\<close>

lemma convert_result_cases:
  "(fst (fst (convert_pdf_to_excel p e w)) \<longrightarrow>
      (\<exists>t. fst (extract_text_from_pdf p w) = Some t \<and> t \<noteq> []
          \<and> parse_text_to_dataframe t \<noteq> []
          \<and> snd (fst (convert_pdf_to_excel p e w)) = success_message e
          \<and> (to_excel w (parse_text_to_dataframe t) e = Saved \<longrightarrow>
                written (snd (convert_pdf_to_excel p e w))
                  = (written w)(e \<mapsto> sheet_of (parse_text_to_dataframe t)))))
   \<and> (\<not> fst (fst (convert_pdf_to_excel p e w)) \<longrightarrow>
        written (snd (convert_pdf_to_excel p e w)) = written w
        \<and> (if fst (extract_text_from_pdf p w) = None \<or> fst (extract_text_from_pdf p w) = Some []
            then snd (fst (convert_pdf_to_excel p e w)) = ''Failed to extract text from the PDF.''
            else snd (fst (convert_pdf_to_excel p e w))
                   = ''Could not parse any structured data from the PDF.''
                 \<and> parse_text_to_dataframe (the (fst (extract_text_from_pdf p w))) = []))
   \<and> ''Failed to extract text from the PDF.''
        \<noteq> ''Could not parse any structured data from the PDF.''"
proof -
  consider (none) "fst (extract_text_from_pdf p w) = None \<or> fst (extract_text_from_pdf p w) = Some []"
    | (empty) t where "fst (extract_text_from_pdf p w) = Some t" "t \<noteq> []"
        "parse_text_to_dataframe t = []"
    | (rows) t where "fst (extract_text_from_pdf p w) = Some t" "t \<noteq> []"
        "parse_text_to_dataframe t \<noteq> []"
    by (cases "fst (extract_text_from_pdf p w)") auto
  then show ?thesis
  proof cases
    case none
    from convert_no_text[OF none, of e] none show ?thesis by (simp add: extract_written)
  next
    case empty
    from convert_no_rows[OF empty, of e] empty show ?thesis by simp
  next
    case rows
    from convert_success[OF rows, of e] rows show ?thesis
      by (simp add: save_to_excel_def print_def)
  qed
qed

text \<open>
  Claim C7 at two inputs where the table is parsed and the save step fails. At an output
  path that cannot be written, the entry point returns success and there is no spreadsheet
  at the path. At a table with a control character in a description, which the spreadsheet
  writer refuses after it has opened the file, the entry point returns success and the
  sheet at the path lacks the description column of the table: neither a whole table nor a
  failure.
\<close>

theorem success_without_table:
  "fst (convert_pdf_to_excel ''in.pdf'' ''locked.xlsx'' example_world)
     = (True, ''Successfully converted PDF to Excel file: '' @ [CHR 0x27] @ ''locked.xlsx'' @ [CHR 0x27])
   \<and> written (snd (convert_pdf_to_excel ''in.pdf'' ''locked.xlsx'' example_world)) ''locked.xlsx''
     = None
   \<and> fst (convert_pdf_to_excel ''control.pdf'' ''out.xlsx'' example_world)
     = (True, ''Successfully converted PDF to Excel file: '' @ [CHR 0x27] @ ''out.xlsx'' @ [CHR 0x27])
   \<and> written (snd (convert_pdf_to_excel ''control.pdf'' ''out.xlsx'' example_world)) ''out.xlsx''
     = Some [columns, [[], [], [], [], ''CADTX1'', ''40102345'']]
   \<and> sheet_of (parse_text_to_dataframe (''CADTX1 - 40102345 X Fee'' @ [CHR 0x01] @ ''income''))
     = [columns, [[], [], [], [], ''CADTX1'', ''40102345'', ''Fee'' @ [CHR 0x01] @ ''income'']]"
  by code_simp



text \<open>
  Claim C8. The parser is a function of the text alone: two runs on the same text give the
  same table, row for row. The same holds one level up: a second conversion of the same
  paths, run in the world the first one left, returns the same result and leaves the
  written spreadsheets as they were.
\<close>

theorem parse_deterministic:
  "text1 = text2 \<Longrightarrow>
   parse_text_to_dataframe text1 = parse_text_to_dataframe text2
   \<and> length (parse_text_to_dataframe text1) = length (parse_text_to_dataframe text2)
   \<and> fst (convert_pdf_to_excel p e (snd (convert_pdf_to_excel p e w)))
        = fst (convert_pdf_to_excel p e w)
   \<and> written (snd (convert_pdf_to_excel p e (snd (convert_pdf_to_excel p e w))))
        = written (snd (convert_pdf_to_excel p e w))"
proof -
  assume eq: "text1 = text2"
  define w' where "w' = snd (convert_pdf_to_excel p e w)"
  have fr: "files w' = files w" "to_excel w' = to_excel w"
    unfolding w'_def by (rule convert_frame)+
  have ex: "fst (extract_text_from_pdf p w') = fst (extract_text_from_pdf p w)"
    by (rule extract_reads_files) (rule fr)
  consider (none) "fst (extract_text_from_pdf p w) = None \<or> fst (extract_text_from_pdf p w) = Some []"
    | (empty) t where "fst (extract_text_from_pdf p w) = Some t" "t \<noteq> []"
        "parse_text_to_dataframe t = []"
    | (rows) t where "fst (extract_text_from_pdf p w) = Some t" "t \<noteq> []"
        "parse_text_to_dataframe t \<noteq> []"
    by (cases "fst (extract_text_from_pdf p w)") auto
  then have "fst (convert_pdf_to_excel p e w') = fst (convert_pdf_to_excel p e w)
      \<and> written (snd (convert_pdf_to_excel p e w')) = written w'"
  proof cases
    case none
    with ex have none': "fst (extract_text_from_pdf p w') = None
        \<or> fst (extract_text_from_pdf p w') = Some []" by simp
    from convert_no_text[OF none, of e] convert_no_text[OF none', of e]
    show ?thesis by (simp add: extract_written)
  next
    case empty
    from empty(1) ex have e': "fst (extract_text_from_pdf p w') = Some t" by simp
    from convert_no_rows[OF empty, of e] convert_no_rows[OF e' empty(2,3), of e]
    show ?thesis by simp
  next
    case rows
    from rows(1) ex have e': "fst (extract_text_from_pdf p w') = Some t" by simp
    have w'eq: "w' = save_to_excel (parse_text_to_dataframe t) e w"
      unfolding w'_def by (simp add: convert_success[OF rows])
    have "written (save_to_excel (parse_text_to_dataframe t) e w') = written w'"
      unfolding w'eq by (rule save_twice)
    with convert_success[OF rows, of e] convert_success[OF e' rows(2,3), of e]
    show ?thesis by simp
  qed
  with eq show ?thesis unfolding w'_def by simp
qed

theorem parse_deterministic_witness:
  "parse_text_to_dataframe scenario_text = parse_text_to_dataframe scenario_text
   \<and> length (parse_text_to_dataframe scenario_text) = 1
   \<and> fst (convert_pdf_to_excel ''in.pdf'' ''out.xlsx''
            (snd (convert_pdf_to_excel ''in.pdf'' ''out.xlsx'' example_world)))
        = (True, ''Successfully converted PDF to Excel file: '' @ [CHR 0x27] @ ''out.xlsx'' @ [CHR 0x27])"
proof -
  have l: "length (parse_text_to_dataframe scenario_text) = 1" by code_simp
  have ok: "fst (convert_pdf_to_excel ''in.pdf'' ''out.xlsx'' example_world)
     = (True, ''Successfully converted PDF to Excel file: '' @ [CHR 0x27] @ ''out.xlsx'' @ [CHR 0x27])"
    by code_simp
  from parse_deterministic[OF refl, of scenario_text "''in.pdf''" "''out.xlsx''" example_world] l ok
  show ?thesis by simp
qed

end
